theory Spec2Isabelle
  imports Main "HOL-Library.Word"
begin

unbundle bit_operations_syntax

section \<open>Flipper expansion protocol: frame codec of \<^verbatim>\<open>expansion_protocol.h\<close>\<close>

text \<open>
  The header overlays a packed struct (a one-byte header followed by a union of the five
  content layouts) on a byte buffer, and the decoder stores raw bytes through
  \<^verbatim>\<open>(uint8_t*)frame + total_size\<close>. The model therefore keeps a frame as the bytes of
  the object, 66 of them, and reads the fields at their packed offsets.
  \<^verbatim>\<open>size_t\<close> is the 32-bit unsigned integer of the ARM targets the header is written
  for; all arithmetic on it wraps.
\<close>

type_synonym u8 = "8 word"
type_synonym u32 = "32 word"
type_synonym size_t = "32 word"

definition SIZE_MAX :: size_t where
  "SIZE_MAX = - 1"

definition EXPANSION_MAX_DATA_SIZE :: nat where
  "EXPANSION_MAX_DATA_SIZE = 64"

subsection \<open>The enumeration of frame types\<close>

definition ExpansionFrameTypeHeartbeat :: u8 where
  "ExpansionFrameTypeHeartbeat = 1"

definition ExpansionFrameTypeStatus :: u8 where
  "ExpansionFrameTypeStatus = 2"

definition ExpansionFrameTypeBaudRate :: u8 where
  "ExpansionFrameTypeBaudRate = 3"

definition ExpansionFrameTypeControl :: u8 where
  "ExpansionFrameTypeControl = 4"

definition ExpansionFrameTypeData :: u8 where
  "ExpansionFrameTypeData = 5"

subsection \<open>The packed frame object\<close>

text \<open>
  \<^verbatim>\<open>ExpansionFrame\<close> under \<^verbatim>\<open>#pragma pack(push, 1)\<close>: byte 0 is \<^verbatim>\<open>header.type\<close>,
  bytes 1 to 65 are the union \<^verbatim>\<open>content\<close>. In the union, \<^verbatim>\<open>status.error\<close>,
  \<^verbatim>\<open>control.command\<close> and \<^verbatim>\<open>data.size\<close> are byte 1, \<^verbatim>\<open>baud_rate.baud\<close> is
  bytes 1 to 4 and \<^verbatim>\<open>data.bytes\<close> is bytes 2 to 65.
\<close>

type_synonym ExpansionFrame = "u8 list"

definition sizeof_ExpansionFrameHeader :: size_t where
  "sizeof_ExpansionFrameHeader = 1"

definition sizeof_ExpansionFrameStatus :: size_t where
  "sizeof_ExpansionFrameStatus = 1"

definition sizeof_ExpansionFrameBaudRate :: size_t where
  "sizeof_ExpansionFrameBaudRate = 4"

definition sizeof_ExpansionFrameControl :: size_t where
  "sizeof_ExpansionFrameControl = 1"

definition sizeof_data_size :: size_t where
  "sizeof_data_size = 1"

definition sizeof_ExpansionFrame :: nat where
  "sizeof_ExpansionFrame = 1 + (1 + EXPANSION_MAX_DATA_SIZE)"

definition header_type :: "ExpansionFrame \<Rightarrow> u8" where
  "header_type frame = frame ! 0"

definition content_data_size :: "ExpansionFrame \<Rightarrow> u8" where
  "content_data_size frame = frame ! 1"

subsection \<open>Size of an encoded frame\<close>

definition expansion_frame_get_encoded_size :: "ExpansionFrame \<Rightarrow> size_t" where
  "expansion_frame_get_encoded_size frame =
     (if header_type frame = ExpansionFrameTypeHeartbeat then
        sizeof_ExpansionFrameHeader
      else if header_type frame = ExpansionFrameTypeStatus then
        sizeof_ExpansionFrameHeader + sizeof_ExpansionFrameStatus
      else if header_type frame = ExpansionFrameTypeBaudRate then
        sizeof_ExpansionFrameHeader + sizeof_ExpansionFrameBaudRate
      else if header_type frame = ExpansionFrameTypeControl then
        sizeof_ExpansionFrameHeader + sizeof_ExpansionFrameControl
      else if header_type frame = ExpansionFrameTypeData then
        sizeof_ExpansionFrameHeader + sizeof_data_size + ucast (content_data_size frame)
      else 0)"

subsection \<open>Bytes still needed by a partly received frame\<close>

text \<open>
  The \<^verbatim>\<open>switch\<close> either assigns \<^verbatim>\<open>content_size\<close> or, in its \<^verbatim>\<open>default\<close> branch,
  returns \<^verbatim>\<open>SIZE_MAX\<close> at once: \<open>None\<close> is that branch.
\<close>

definition content_size_switch :: "ExpansionFrame \<Rightarrow> size_t \<Rightarrow> size_t option" where
  "content_size_switch frame received_content_size =
     (if header_type frame = ExpansionFrameTypeHeartbeat then Some 0
      else if header_type frame = ExpansionFrameTypeStatus then
        Some sizeof_ExpansionFrameStatus
      else if header_type frame = ExpansionFrameTypeBaudRate then
        Some sizeof_ExpansionFrameBaudRate
      else if header_type frame = ExpansionFrameTypeControl then
        Some sizeof_ExpansionFrameControl
      else if header_type frame = ExpansionFrameTypeData then
        (if received_content_size < sizeof_data_size then Some sizeof_data_size
         else Some (sizeof_data_size + ucast (content_data_size frame)))
      else None)"

definition expansion_frame_get_remaining_size :: "ExpansionFrame \<Rightarrow> size_t \<Rightarrow> size_t" where
  "expansion_frame_get_remaining_size frame received_size =
     (if received_size < sizeof_ExpansionFrameHeader then sizeof_ExpansionFrameHeader
      else
        (let received_content_size = received_size - sizeof_ExpansionFrameHeader in
         case content_size_switch frame received_content_size of
           None \<Rightarrow> SIZE_MAX
         | Some content_size \<Rightarrow>
             if content_size > received_content_size
             then content_size - received_content_size else 0))"

subsection \<open>Receiving and decoding\<close>

text \<open>
  A receive callback gets the capacity \<^verbatim>\<open>data_size\<close> and its context; it yields the
  bytes it stored from \<^verbatim>\<open>data[0]\<close> on, the count it returns and its context afterwards.
  Nothing ties the three together: a callback may store more or fewer bytes than it
  reports and may report more than the capacity.
\<close>

type_synonym 'ctx ExpansionFrameReceiveCallback =
  "size_t \<Rightarrow> 'ctx \<Rightarrow> u8 list \<times> size_t \<times> 'ctx"

text \<open>
  The stores of a callback through the pointer \<^verbatim>\<open>(uint8_t*)frame + off\<close>. Bytes that
  would land behind the last byte of the frame object are outside of it and are not part
  of the frame afterwards.
\<close>

definition store_bytes :: "ExpansionFrame \<Rightarrow> nat \<Rightarrow> u8 list \<Rightarrow> ExpansionFrame" where
  "store_bytes frame off bytes =
     take off frame @ take (length frame - off) bytes @ drop (off + length bytes) frame"

text \<open>
  The local variables of \<^verbatim>\<open>expansion_frame_decode\<close>, the frame and the context they
  work on, and a log of the callback invocations made so far (the offset of the pointer
  handed over and the capacity asked for). \<^verbatim>\<open>remaining_size\<close> is declared without a
  value and assigned at the top of every pass, before anything reads it; the model starts
  it at 0.
\<close>

record 'ctx decode_state =
  ds_frame :: ExpansionFrame
  ds_context :: 'ctx
  ds_total_size :: size_t
  ds_remaining_size :: size_t
  ds_calls :: "(size_t \<times> size_t) list"

text \<open>
  The \<^verbatim>\<open>while(true)\<close> loop. It need not end (a callback that over-reports can wrap
  \<^verbatim>\<open>total_size\<close> around for ever), so a run that does not return is \<open>None\<close>.
\<close>

partial_function (option) expansion_frame_decode_loop ::
  "'ctx ExpansionFrameReceiveCallback \<Rightarrow> 'ctx decode_state \<Rightarrow> 'ctx decode_state option"
where
  "expansion_frame_decode_loop receive s =
     (let remaining_size = expansion_frame_get_remaining_size (ds_frame s) (ds_total_size s) in
      if remaining_size = 0 \<or> remaining_size = SIZE_MAX then
        Some (s\<lparr>ds_remaining_size := remaining_size\<rparr>)
      else
        (case receive remaining_size (ds_context s) of
           (stored, received_size, context') \<Rightarrow>
             (let s' = s\<lparr>ds_frame := store_bytes (ds_frame s) (unat (ds_total_size s)) stored,
                         ds_context := context',
                         ds_remaining_size := remaining_size,
                         ds_calls := ds_calls s @ [(ds_total_size s, remaining_size)]\<rparr> in
              if received_size = 0 then Some s'
              else expansion_frame_decode_loop receive
                     (s'\<lparr>ds_total_size := ds_total_size s + received_size\<rparr>))))"

record 'ctx decode_result =
  dr_ok :: bool
  dr_frame :: ExpansionFrame
  dr_context :: 'ctx
  dr_calls :: "(size_t \<times> size_t) list"

definition expansion_frame_decode ::
  "ExpansionFrame \<Rightarrow> 'ctx ExpansionFrameReceiveCallback \<Rightarrow> 'ctx \<Rightarrow> 'ctx decode_result option"
where
  "expansion_frame_decode frame receive context =
     (case expansion_frame_decode_loop receive
             \<lparr>ds_frame = frame, ds_context = context, ds_total_size = 0,
              ds_remaining_size = 0, ds_calls = []\<rparr> of
        None \<Rightarrow> None
      | Some s \<Rightarrow>
          Some \<lparr>dr_ok = (ds_remaining_size s = 0), dr_frame = ds_frame s,
                dr_context = ds_context s, dr_calls = ds_calls s\<rparr>)"

subsection \<open>Encoding and sending\<close>

text \<open>
  A send callback gets the bytes at \<^verbatim>\<open>data\<close> (those of them that lie in the frame
  object), the size \<^verbatim>\<open>data_size\<close> and its context; it yields the count it returns and
  its context afterwards.
\<close>

type_synonym 'ctx ExpansionFrameSendCallback =
  "u8 list \<Rightarrow> size_t \<Rightarrow> 'ctx \<Rightarrow> size_t \<times> 'ctx"

record 'ctx encode_result =
  er_ok :: bool
  er_context :: 'ctx
  er_calls :: "(u8 list \<times> size_t) list"

definition expansion_frame_encode ::
  "ExpansionFrame \<Rightarrow> 'ctx ExpansionFrameSendCallback \<Rightarrow> 'ctx \<Rightarrow> 'ctx encode_result"
where
  "expansion_frame_encode frame send context =
     (let encoded_size = expansion_frame_get_encoded_size frame in
      if encoded_size \<noteq> 0 then
        (case send (take (unat encoded_size) frame) encoded_size context of
           (sent, context') \<Rightarrow>
             \<lparr>er_ok = (sent = encoded_size), er_context = context',
              er_calls = [(take (unat encoded_size) frame, encoded_size)]\<rparr>)
      else \<lparr>er_ok = False, er_context = context, er_calls = []\<rparr>)"

subsection \<open>An in-memory byte buffer as source and sink\<close>

text \<open>
  The two callbacks of a loop-back test. The source hands out the next bytes of a stream,
  as many as were asked for or as are left, and reports how many; the sink appends what it
  is given to a buffer and reports all of it as sent.
\<close>

definition buffer_receive :: "u8 list ExpansionFrameReceiveCallback" where
  "buffer_receive data_size stream =
     (take (unat data_size) stream,
      of_nat (length (take (unat data_size) stream)),
      drop (unat data_size) stream)"

definition buffer_send :: "u8 list ExpansionFrameSendCallback" where
  "buffer_send data data_size sink = (data_size, sink @ data)"

subsection \<open>A callback that over-reports\<close>

text \<open>
  A source that breaks its contract: it stores nothing and reports 1 byte and
  \<^verbatim>\<open>SIZE_MAX\<close> bytes in turn, so that \<^verbatim>\<open>total_size\<close> goes from 0 to 1 and wraps back
  to 0. \<open>wrapping_run\<close> describes the states the loop then moves through on a Status
  frame.
\<close>

definition wrapping_receive :: "bool ExpansionFrameReceiveCallback" where
  "wrapping_receive data_size again = ([], if again then SIZE_MAX else 1, \<not> again)"

definition wrapping_run :: "bool decode_state \<Rightarrow> bool" where
  "wrapping_run s \<longleftrightarrow>
     header_type (ds_frame s) = ExpansionFrameTypeStatus \<and>
     ds_total_size s = (if ds_context s then 1 else 0)"

subsection \<open>Frame values and the fields of the union\<close>

text \<open>
  What a caller puts into a frame and reads out of it: the tag and the fields of the
  content struct the tag selects. \<^verbatim>\<open>baud\<close> is a \<^verbatim>\<open>uint32_t\<close> at bytes 1 to 4 in the
  byte order of the host, little-endian on the targets of the header. Of \<^verbatim>\<open>data.bytes\<close>
  only the first \<^verbatim>\<open>data.size\<close> bytes are valid.
\<close>

datatype Frame =
    Heartbeat
  | Status u8
  | BaudRate u32
  | Control u8
  | Data "u8 list"

definition baud_to_bytes :: "u32 \<Rightarrow> u8 list" where
  "baud_to_bytes baud =
     [ucast baud, ucast (drop_bit 8 baud), ucast (drop_bit 16 baud), ucast (drop_bit 24 baud)]"

definition baud_of_bytes :: "u8 list \<Rightarrow> u32" where
  "baud_of_bytes bs =
     ucast (bs ! 0) OR push_bit 8 (ucast (bs ! 1)) OR push_bit 16 (ucast (bs ! 2))
       OR push_bit 24 (ucast (bs ! 3))"

text \<open>The bytes that assigning the tag and the fields of a frame value writes, from byte 0 on.\<close>

definition frame_bytes :: "Frame \<Rightarrow> u8 list" where
  "frame_bytes v =
     (case v of
        Heartbeat \<Rightarrow> [ExpansionFrameTypeHeartbeat]
      | Status error \<Rightarrow> [ExpansionFrameTypeStatus, error]
      | BaudRate baud \<Rightarrow> ExpansionFrameTypeBaudRate # baud_to_bytes baud
      | Control command \<Rightarrow> [ExpansionFrameTypeControl, command]
      | Data bytes \<Rightarrow> ExpansionFrameTypeData # of_nat (length bytes) # bytes)"

definition frame_store :: "Frame \<Rightarrow> ExpansionFrame \<Rightarrow> ExpansionFrame" where
  "frame_store v frame = store_bytes frame 0 (frame_bytes v)"

text \<open>Reading a frame back: the tag selects the struct whose fields are read.\<close>

definition frame_value :: "ExpansionFrame \<Rightarrow> Frame option" where
  "frame_value frame =
     (if header_type frame = ExpansionFrameTypeHeartbeat then Some Heartbeat
      else if header_type frame = ExpansionFrameTypeStatus then Some (Status (frame ! 1))
      else if header_type frame = ExpansionFrameTypeBaudRate then
        Some (BaudRate (baud_of_bytes (take 4 (drop 1 frame))))
      else if header_type frame = ExpansionFrameTypeControl then Some (Control (frame ! 1))
      else if header_type frame = ExpansionFrameTypeData then
        Some (Data (take (unat (content_data_size frame)) (drop 2 frame)))
      else None)"

text \<open>The payload of a Data frame fits the array \<^verbatim>\<open>bytes[EXPANSION_MAX_DATA_SIZE]\<close>.\<close>

definition well_formed :: "Frame \<Rightarrow> bool" where
  "well_formed v =
     (case v of Data bytes \<Rightarrow> length bytes \<le> EXPANSION_MAX_DATA_SIZE | _ \<Rightarrow> True)"


section \<open>Arithmetic of the two size functions\<close>

text \<open>
  Both functions compute in \<^verbatim>\<open>size_t\<close>. None of their sums and differences wraps:
  a length byte is below 256, and every subtraction is guarded by the comparison before it.
\<close>

lemmas ExpansionFrameType_defs =
  ExpansionFrameTypeHeartbeat_def ExpansionFrameTypeStatus_def
  ExpansionFrameTypeBaudRate_def ExpansionFrameTypeControl_def
  ExpansionFrameTypeData_def

lemmas sizeof_defs =
  sizeof_ExpansionFrameHeader_def sizeof_ExpansionFrameStatus_def
  sizeof_ExpansionFrameBaudRate_def sizeof_ExpansionFrameControl_def
  sizeof_data_size_def

lemma unat_u8_bound: "unat (x::u8) < 256"
  using unsigned_less[of x, where 'a=nat] by simp

lemma unat_ucast_u8: "unat (ucast (x::u8) :: size_t) = unat x"
proof -
  have "unat x < 2 ^ 32" using unat_u8_bound[of x] by simp
  then show ?thesis by (simp add: unsigned_ucast_eq take_bit_nat_eq_self)
qed

lemma unat_add_ucast: "unat (2 + ucast (x::u8) :: size_t) = 2 + unat x"
  using unat_u8_bound[of x] by (simp add: unat_word_ariths unat_ucast_u8)

lemma unat_add1_ucast: "unat (1 + ucast (x::u8) :: size_t) = 1 + unat x"
  using unat_u8_bound[of x] by (simp add: unat_word_ariths unat_ucast_u8)

lemma size_t_lt_1: "(rs :: size_t) < 1 \<longleftrightarrow> rs = 0"
  by (simp add: word_less_nat_alt unat_eq_0)

lemma unat_minus_1: "(rs :: size_t) \<noteq> 0 \<Longrightarrow> unat (rs - 1) = unat rs - 1"
  by (simp add: unat_minus_one)

lemma remaining_header:
  "expansion_frame_get_remaining_size frame 0 = 1"
  by (simp add: expansion_frame_get_remaining_size_def sizeof_defs)

lemma remaining_unknown:
  "rs \<noteq> 0 \<Longrightarrow> content_size_switch frame (rs - 1) = None
   \<Longrightarrow> expansion_frame_get_remaining_size frame rs = SIZE_MAX"
  by (simp add: expansion_frame_get_remaining_size_def sizeof_defs size_t_lt_1)

lemma remaining_known:
  "rs \<noteq> 0 \<Longrightarrow> content_size_switch frame (rs - 1) = Some cs
   \<Longrightarrow> unat (expansion_frame_get_remaining_size frame rs) = unat cs - (unat rs - 1)"
proof -
  assume nz: "rs \<noteq> 0" and sw: "content_size_switch frame (rs - 1) = Some cs"
  have r: "expansion_frame_get_remaining_size frame rs =
        (if cs > rs - 1 then cs - (rs - 1) else 0)"
    using nz sw by (simp add: expansion_frame_get_remaining_size_def sizeof_defs size_t_lt_1)
  show ?thesis
    unfolding r using nz
    by (simp add: word_less_nat_alt unat_minus_1 unat_sub word_le_nat_alt)
qed

lemma switch_unknown:
  "header_type frame \<notin> {1, 2, 3, 4, 5} \<Longrightarrow> content_size_switch frame rcs = None"
  by (simp add: content_size_switch_def ExpansionFrameType_defs)

lemma switch_fixed:
  "header_type frame = 1 \<Longrightarrow> content_size_switch frame rcs = Some 0"
  "header_type frame = 2 \<Longrightarrow> content_size_switch frame rcs = Some 1"
  "header_type frame = 3 \<Longrightarrow> content_size_switch frame rcs = Some 4"
  "header_type frame = 4 \<Longrightarrow> content_size_switch frame rcs = Some 1"
  by (simp_all add: content_size_switch_def ExpansionFrameType_defs sizeof_defs)

lemma switch_data:
  "header_type frame = 5 \<Longrightarrow> content_size_switch frame rcs =
     Some (if rcs = 0 then 1 else 1 + ucast (content_data_size frame))"
  by (simp add: content_size_switch_def ExpansionFrameType_defs sizeof_defs size_t_lt_1)

lemma uint_remaining_known:
  assumes "rs \<noteq> 0" "content_size_switch frame (rs - 1) = Some cs"
  shows "uint (expansion_frame_get_remaining_size frame rs) = max (uint cs - (uint rs - 1)) 0"
proof -
  have nz: "unat rs \<noteq> 0" using assms(1) by (simp add: unat_eq_0)
  have "int (unat (expansion_frame_get_remaining_size frame rs)) = int (unat cs - (unat rs - 1))"
    using remaining_known[OF assms] by simp
  also have "\<dots> = max (int (unat cs) - (int (unat rs) - 1)) 0"
    using nz by linarith
  finally show ?thesis by (simp only: uint_nat)
qed


lemma uint_add1_ucast: "uint (1 + ucast (x::u8) :: size_t) = 1 + uint x"
proof -
  have "int (unat (1 + ucast x :: size_t)) = int (1 + unat x)"
    by (simp only: unat_add1_ucast)
  then show ?thesis by (simp only: uint_nat)
qed

lemma uint_content_received:
  "(rs::size_t) \<noteq> 0 \<Longrightarrow> (uint rs - 1 < 1) = (rs - 1 = 0)"
proof -
  assume a: "rs \<noteq> 0"
  have nz: "unat rs \<noteq> 0" using a by (simp add: unat_eq_0)
  have "(rs - 1 = 0) = (unat (rs - 1) = 0)" by (simp only: unat_eq_0)
  also have "\<dots> = (unat rs - 1 = 0)" by (simp only: unat_minus_1[OF a])
  also have "\<dots> = (int (unat rs) - 1 < 1)" using nz by linarith
  finally show ?thesis by (simp only: uint_nat)
qed

lemma remaining_fixed_uint:
  assumes "\<not> received_size < sizeof_ExpansionFrameHeader"
  shows "header_type frame = ExpansionFrameTypeHeartbeat \<Longrightarrow>
         uint (expansion_frame_get_remaining_size frame received_size) =
           max (0 - (uint received_size - 1)) 0"
    and "header_type frame = ExpansionFrameTypeStatus \<Longrightarrow>
         uint (expansion_frame_get_remaining_size frame received_size) =
           max (1 - (uint received_size - 1)) 0"
    and "header_type frame = ExpansionFrameTypeBaudRate \<Longrightarrow>
         uint (expansion_frame_get_remaining_size frame received_size) =
           max (4 - (uint received_size - 1)) 0"
    and "header_type frame = ExpansionFrameTypeControl \<Longrightarrow>
         uint (expansion_frame_get_remaining_size frame received_size) =
           max (1 - (uint received_size - 1)) 0"
proof -
  have nz: "received_size \<noteq> 0"
    using assms by (simp add: sizeof_defs size_t_lt_1)
  show "header_type frame = ExpansionFrameTypeHeartbeat \<Longrightarrow>
         uint (expansion_frame_get_remaining_size frame received_size) =
           max (0 - (uint received_size - 1)) 0"
    using uint_remaining_known[OF nz switch_fixed(1)] by (simp add: ExpansionFrameType_defs)
  show "header_type frame = ExpansionFrameTypeStatus \<Longrightarrow>
         uint (expansion_frame_get_remaining_size frame received_size) =
           max (1 - (uint received_size - 1)) 0"
    using uint_remaining_known[OF nz switch_fixed(2)] by (simp add: ExpansionFrameType_defs)
  show "header_type frame = ExpansionFrameTypeBaudRate \<Longrightarrow>
         uint (expansion_frame_get_remaining_size frame received_size) =
           max (4 - (uint received_size - 1)) 0"
    using uint_remaining_known[OF nz switch_fixed(3)] by (simp add: ExpansionFrameType_defs)
  show "header_type frame = ExpansionFrameTypeControl \<Longrightarrow>
         uint (expansion_frame_get_remaining_size frame received_size) =
           max (1 - (uint received_size - 1)) 0"
    using uint_remaining_known[OF nz switch_fixed(4)] by (simp add: ExpansionFrameType_defs)
qed

lemma remaining_data_uint:
  assumes "\<not> received_size < sizeof_ExpansionFrameHeader"
    and "header_type frame = ExpansionFrameTypeData"
  shows "uint (expansion_frame_get_remaining_size frame received_size) =
           (if uint received_size - 1 < 1
            then max (1 - (uint received_size - 1)) 0
            else max (1 + uint (content_data_size frame) - (uint received_size - 1)) 0)"
proof -
  have nz: "received_size \<noteq> 0"
    using assms(1) by (simp add: sizeof_defs size_t_lt_1)
  have t: "header_type frame = 5"
    using assms(2) by (simp add: ExpansionFrameType_defs)
  show ?thesis
  proof (cases "received_size - 1 = 0")
    case True
    then have "content_size_switch frame (received_size - 1) = Some 1"
      using switch_data[OF t, of "received_size - 1"] by simp
    from uint_remaining_known[OF nz this] True show ?thesis
      by (simp add: uint_content_received[OF nz])
  next
    case False
    then have "content_size_switch frame (received_size - 1) =
        Some (1 + ucast (content_data_size frame))"
      using switch_data[OF t, of "received_size - 1"] by simp
    from uint_remaining_known[OF nz this] False show ?thesis
      by (simp add: uint_content_received[OF nz] uint_add1_ucast)
  qed
qed


section \<open>The size functions\<close>

text \<open>
  Claim C3. \<^verbatim>\<open>expansion_frame_get_remaining_size\<close>: below the one-byte header size
  the answer is the header size. From there on, for a known tag, it is
  \<open>max (content requirement - content received) 0\<close>, the content received being
  \<open>received_size - 1\<close> and the content requirement 0 for Heartbeat, 1 for Status, 4 for
  BaudRate, 1 for Control and, for Data, 1 while the length field has not been received
  and 1 plus the declared length once it has. The values are read as integers, so the
  equations also say that nothing wraps.
\<close>

theorem get_remaining_size_requirement:
  "(received_size < sizeof_ExpansionFrameHeader \<longrightarrow>
      expansion_frame_get_remaining_size frame received_size = sizeof_ExpansionFrameHeader) \<and>
   (\<not> received_size < sizeof_ExpansionFrameHeader \<longrightarrow>
      (header_type frame = ExpansionFrameTypeHeartbeat \<longrightarrow>
         uint (expansion_frame_get_remaining_size frame received_size) =
           max (0 - (uint received_size - 1)) 0) \<and>
      (header_type frame = ExpansionFrameTypeStatus \<longrightarrow>
         uint (expansion_frame_get_remaining_size frame received_size) =
           max (1 - (uint received_size - 1)) 0) \<and>
      (header_type frame = ExpansionFrameTypeBaudRate \<longrightarrow>
         uint (expansion_frame_get_remaining_size frame received_size) =
           max (4 - (uint received_size - 1)) 0) \<and>
      (header_type frame = ExpansionFrameTypeControl \<longrightarrow>
         uint (expansion_frame_get_remaining_size frame received_size) =
           max (1 - (uint received_size - 1)) 0) \<and>
      (header_type frame = ExpansionFrameTypeData \<longrightarrow>
         uint (expansion_frame_get_remaining_size frame received_size) =
           (if uint received_size - 1 < 1
            then max (1 - (uint received_size - 1)) 0
            else max (1 + uint (content_data_size frame) - (uint received_size - 1)) 0)))"
proof (intro conjI impI)
  assume "received_size < sizeof_ExpansionFrameHeader"
  then show "expansion_frame_get_remaining_size frame received_size = sizeof_ExpansionFrameHeader"
    by (simp add: expansion_frame_get_remaining_size_def)
qed (fact remaining_fixed_uint remaining_data_uint)+

theorem get_remaining_size_requirement_witness:
  "\<not> (3 :: size_t) < sizeof_ExpansionFrameHeader \<and>
   header_type (5 # 7 # replicate 64 0) = ExpansionFrameTypeData \<and>
   uint (expansion_frame_get_remaining_size (5 # 7 # replicate 64 0) 3) = 6 \<and>
   (0 :: size_t) < sizeof_ExpansionFrameHeader \<and>
   expansion_frame_get_remaining_size (5 # 7 # replicate 64 0) 0 = 1"
  using get_remaining_size_requirement [of 3 "5 # 7 # replicate 64 0"]
    get_remaining_size_requirement [of 0 "5 # 7 # replicate 64 0"]
  by (simp add: sizeof_defs header_type_def content_data_size_def ExpansionFrameType_defs)

text \<open>
  Claim C4. \<^verbatim>\<open>expansion_frame_get_encoded_size\<close> is 1 for Heartbeat, 2 for Status,
  5 for BaudRate, 2 for Control, 2 plus the declared length for Data, and 0 for every tag
  outside the five known values.
\<close>

theorem get_encoded_size_cases:
  "(header_type frame = ExpansionFrameTypeHeartbeat \<longrightarrow>
      expansion_frame_get_encoded_size frame = 1) \<and>
   (header_type frame = ExpansionFrameTypeStatus \<longrightarrow>
      expansion_frame_get_encoded_size frame = 2) \<and>
   (header_type frame = ExpansionFrameTypeBaudRate \<longrightarrow>
      expansion_frame_get_encoded_size frame = 5) \<and>
   (header_type frame = ExpansionFrameTypeControl \<longrightarrow>
      expansion_frame_get_encoded_size frame = 2) \<and>
   (header_type frame = ExpansionFrameTypeData \<longrightarrow>
      uint (expansion_frame_get_encoded_size frame) = 2 + uint (content_data_size frame)) \<and>
   (header_type frame \<notin> {1, 2, 3, 4, 5} \<longrightarrow>
      expansion_frame_get_encoded_size frame = 0)"
proof -
  have "uint (2 + ucast (content_data_size frame) :: size_t) = 2 + uint (content_data_size frame)"
    using unat_add_ucast[of "content_data_size frame"] by (simp only: uint_nat)
  then show ?thesis
    by (simp add: expansion_frame_get_encoded_size_def ExpansionFrameType_defs sizeof_defs)
qed

theorem get_encoded_size_cases_witness:
  "header_type (5 # 64 # replicate 64 0) = ExpansionFrameTypeData \<and>
   uint (expansion_frame_get_encoded_size (5 # 64 # replicate 64 0)) = 66 \<and>
   header_type (3 # replicate 65 0) = ExpansionFrameTypeBaudRate \<and>
   expansion_frame_get_encoded_size (3 # replicate 65 0) = 5 \<and>
   header_type (9 # replicate 65 0) \<notin> {1, 2, 3, 4, 5} \<and>
   expansion_frame_get_encoded_size (9 # replicate 65 0) = 0"
  using get_encoded_size_cases [of "5 # 64 # replicate 64 0"]
    get_encoded_size_cases [of "3 # replicate 65 0"]
    get_encoded_size_cases [of "9 # replicate 65 0"]
  by (simp add: header_type_def content_data_size_def ExpansionFrameType_defs)

text \<open>
  Claim C6. For a frame with one of the five known tags, the remaining size at
  \<open>received_size = expansion_frame_get_encoded_size frame\<close> is exactly 0. For Data the
  length field is whatever byte 1 of the buffer holds, up to 255.
\<close>

theorem remaining_size_zero_at_encoded_size:
  "header_type frame \<in> {ExpansionFrameTypeHeartbeat, ExpansionFrameTypeStatus,
      ExpansionFrameTypeBaudRate, ExpansionFrameTypeControl, ExpansionFrameTypeData}
   \<Longrightarrow> expansion_frame_get_remaining_size frame (expansion_frame_get_encoded_size frame) = 0"
proof -
  assume "header_type frame \<in> {ExpansionFrameTypeHeartbeat, ExpansionFrameTypeStatus,
      ExpansionFrameTypeBaudRate, ExpansionFrameTypeControl, ExpansionFrameTypeData}"
  then consider "header_type frame = 1" | "header_type frame = 2" | "header_type frame = 3"
    | "header_type frame = 4" | "header_type frame = 5"
    by (auto simp: ExpansionFrameType_defs)
  then have "unat (expansion_frame_get_remaining_size frame (expansion_frame_get_encoded_size frame)) = 0"
  proof cases
    case 1
    have e: "expansion_frame_get_encoded_size frame = 1"
      using 1 by (simp add: expansion_frame_get_encoded_size_def ExpansionFrameType_defs sizeof_defs)
    show ?thesis unfolding e
      using remaining_known[OF _ switch_fixed(1)[OF 1], of 1] by simp
  next
    case 2
    have e: "expansion_frame_get_encoded_size frame = 2"
      using 2 by (simp add: expansion_frame_get_encoded_size_def ExpansionFrameType_defs sizeof_defs)
    show ?thesis unfolding e
      using remaining_known[OF _ switch_fixed(2)[OF 2], of 2] by simp
  next
    case 3
    have e: "expansion_frame_get_encoded_size frame = 5"
      using 3 by (simp add: expansion_frame_get_encoded_size_def ExpansionFrameType_defs sizeof_defs)
    show ?thesis unfolding e
      using remaining_known[OF _ switch_fixed(3)[OF 3], of 5] by simp
  next
    case 4
    have e: "expansion_frame_get_encoded_size frame = 2"
      using 4 by (simp add: expansion_frame_get_encoded_size_def ExpansionFrameType_defs sizeof_defs)
    show ?thesis unfolding e
      using remaining_known[OF _ switch_fixed(4)[OF 4], of 2] by simp
  next
    case 5
    let ?n = "content_data_size frame"
    have e: "expansion_frame_get_encoded_size frame = 2 + ucast ?n"
      using 5 by (simp add: expansion_frame_get_encoded_size_def ExpansionFrameType_defs sizeof_defs)
    have nz: "(2 + ucast ?n :: size_t) \<noteq> 0"
      using unat_add_ucast[of ?n] by (metis add_is_0 unat_eq_0 zero_neq_numeral)
    have m: "(2 + ucast ?n :: size_t) - 1 = 1 + ucast ?n" by simp
    have nz1: "(1 + ucast ?n :: size_t) \<noteq> 0"
      using unat_add1_ucast[of ?n] by (metis add_is_0 unat_eq_0 zero_neq_one)
    have sw: "content_size_switch frame ((2 + ucast ?n) - 1) = Some (1 + ucast ?n)"
      unfolding m using switch_data[OF 5, of "1 + ucast ?n"] nz1 by simp
    show ?thesis unfolding e
      using remaining_known[OF nz sw] by (simp add: unat_add_ucast unat_add1_ucast)
  qed
  then show ?thesis by (simp only: unat_eq_0)
qed

theorem remaining_size_zero_at_encoded_size_witness:
  "header_type (5 # 64 # replicate 64 0) \<in> {ExpansionFrameTypeHeartbeat, ExpansionFrameTypeStatus,
      ExpansionFrameTypeBaudRate, ExpansionFrameTypeControl, ExpansionFrameTypeData} \<and>
   expansion_frame_get_encoded_size (5 # 64 # replicate 64 0) = 66 \<and>
   expansion_frame_get_remaining_size (5 # 64 # replicate 64 0) 66 = 0"
proof -
  have h: "header_type (5 # 64 # replicate 64 0) \<in> {ExpansionFrameTypeHeartbeat, ExpansionFrameTypeStatus,
      ExpansionFrameTypeBaudRate, ExpansionFrameTypeControl, ExpansionFrameTypeData}"
    by (simp add: header_type_def ExpansionFrameType_defs)
  have e: "expansion_frame_get_encoded_size (5 # 64 # replicate 64 0) = 66"
    by (simp add: expansion_frame_get_encoded_size_def header_type_def content_data_size_def
          ExpansionFrameType_defs sizeof_defs)
  show ?thesis
    using h e remaining_size_zero_at_encoded_size [OF h] by simp
qed

text \<open>
  Claim C5, as stated, asks the remaining size to be non-increasing in \<open>received_size\<close>
  over all of its range. It is not: before the header byte is in, the function answers
  with the header size alone, and for a Data frame it answers with the size of the length
  field until that field is in. A BaudRate frame needs 1 byte at \<open>received_size = 0\<close>
  and 4 bytes at \<open>received_size = 1\<close>; a Data frame of length 2 needs 1 byte at
  \<open>received_size = 1\<close> and 2 bytes at \<open>received_size = 2\<close>.
\<close>

theorem remaining_size_monotone_counterexample:
  "(0 :: size_t) \<le> 1 \<and>
   header_type (3 # replicate 65 0) = ExpansionFrameTypeBaudRate \<and>
   expansion_frame_get_remaining_size (3 # replicate 65 0) 0 = 1 \<and>
   expansion_frame_get_remaining_size (3 # replicate 65 0) 1 = 4 \<and>
   \<not> expansion_frame_get_remaining_size (3 # replicate 65 0) 1
          \<le> expansion_frame_get_remaining_size (3 # replicate 65 0) 0 \<and>
   (1 :: size_t) \<le> 2 \<and>
   header_type (5 # 2 # replicate 64 0) = ExpansionFrameTypeData \<and>
   content_data_size (5 # 2 # replicate 64 0) = 2 \<and>
   expansion_frame_get_remaining_size (5 # 2 # replicate 64 0) 1 = 1 \<and>
   expansion_frame_get_remaining_size (5 # 2 # replicate 64 0) 2 = 2 \<and>
   \<not> expansion_frame_get_remaining_size (5 # 2 # replicate 64 0) 2
          \<le> expansion_frame_get_remaining_size (5 # 2 # replicate 64 0) 1"
  by (simp add: expansion_frame_get_remaining_size_def content_size_switch_def
          header_type_def content_data_size_def ExpansionFrameType_defs sizeof_defs
          word_le_nat_alt word_less_nat_alt)

text \<open>
  From the point where the content requirement is fixed the remaining size only falls;
  and where the content requirement never exceeds what was asked for before, it is at
  most 1 everywhere.
\<close>

lemma remaining_monotone_from_known:
  assumes tag: "header_type frame \<in> {ExpansionFrameTypeHeartbeat, ExpansionFrameTypeStatus,
      ExpansionFrameTypeBaudRate, ExpansionFrameTypeControl, ExpansionFrameTypeData}"
    and known: "(if header_type frame = ExpansionFrameTypeData then 2 else 1) \<le> m"
    and le: "m \<le> n"
  shows "expansion_frame_get_remaining_size frame n \<le> expansion_frame_get_remaining_size frame m"
proof -
  have m1: "1 \<le> unat m"
    using known by (simp add: sizeof_defs word_le_nat_alt split: if_splits)
  have mn: "unat m \<le> unat n"
    using le by (simp add: word_le_nat_alt)
  have mz: "m \<noteq> 0" and nz: "n \<noteq> 0"
    using m1 mn by auto
  obtain cs where sm: "content_size_switch frame (m - 1) = Some cs"
    and sn: "content_size_switch frame (n - 1) = Some cs"
  proof (cases "header_type frame = 5")
    case True
    have "2 \<le> unat m"
      using known True by (simp add: sizeof_defs word_le_nat_alt ExpansionFrameType_defs)
    then have "unat (m - 1) \<noteq> 0" "unat (n - 1) \<noteq> 0"
      using mn by (simp_all add: unat_minus_1[OF mz] unat_minus_1[OF nz])
    then have "m - 1 \<noteq> 0" "n - 1 \<noteq> 0"
      by (simp_all only: unat_eq_0 not_False_eq_True)
    then show ?thesis
      using that switch_data[OF True] by simp
  next
    case False
    then consider "header_type frame = 1" | "header_type frame = 2"
      | "header_type frame = 3" | "header_type frame = 4"
      using tag by (auto simp: ExpansionFrameType_defs)
    then show ?thesis
      using that switch_fixed by cases blast+
  qed
  have "unat (expansion_frame_get_remaining_size frame n)
      \<le> unat (expansion_frame_get_remaining_size frame m)"
    using remaining_known[OF mz sm] remaining_known[OF nz sn] mn by simp
  then show ?thesis by (simp only: word_le_nat_alt)
qed

lemma remaining_at_most_1:
  assumes "header_type frame \<in> {1, 2, 4} \<or>
           (header_type frame = 5 \<and> unat (content_data_size frame) \<le> 1)"
  shows "unat (expansion_frame_get_remaining_size frame n) \<le> 1"
proof (cases "n = 0")
  case True
  then show ?thesis by (simp add: remaining_header)
next
  case False
  from assms consider "header_type frame = 1" | "header_type frame = 2"
    | "header_type frame = 4"
    | "header_type frame = 5" "unat (content_data_size frame) \<le> 1"
    by auto
  then show ?thesis
  proof cases
    case 1
    from remaining_known[OF False switch_fixed(1)[OF 1]] show ?thesis by simp
  next
    case 2
    from remaining_known[OF False switch_fixed(2)[OF 2]] show ?thesis by simp
  next
    case 3
    from remaining_known[OF False switch_fixed(4)[OF 3]] show ?thesis by simp
  next
    case 4
    show ?thesis
    proof (cases "n - 1 = 0")
      case True
      then have "content_size_switch frame (n - 1) = Some 1"
        using switch_data[OF 4(1), of "n - 1"] by simp
      from remaining_known[OF False this] show ?thesis by simp
    next
      case n1: False
      then have "unat (n - 1) \<noteq> 0" by (simp only: unat_eq_0 not_False_eq_True)
      then have "1 \<le> unat n - 1" by (simp add: unat_minus_1[OF False])
      moreover have "content_size_switch frame (n - 1) =
          Some (1 + ucast (content_data_size frame))"
        using switch_data[OF 4(1), of "n - 1"] n1 by simp
      ultimately show ?thesis
        using remaining_known[OF False, of frame "1 + ucast (content_data_size frame)"] 4(2)
        by (simp add: unat_add1_ucast)
    qed
  qed
qed

lemma remaining_data_at_1:
  assumes "header_type frame = 5"
  shows "expansion_frame_get_remaining_size frame 1 = 1"
  using assms
  by (simp add: expansion_frame_get_remaining_size_def content_size_switch_def
      ExpansionFrameType_defs sizeof_defs)

text \<open>
  Claim C5, amended. For a frame with a known tag the remaining size is non-increasing
  over all \<open>m \<le> n\<close> for Heartbeat, Status and Control and for Data with a length of at
  most 1; for BaudRate over all \<open>1 \<le> m \<le> n\<close>; and for Data with a length of 2 or more
  over all \<open>2 \<le> m \<le> n\<close>.
\<close>

theorem remaining_size_monotone_once_known:
  assumes tag: "header_type frame \<in> {ExpansionFrameTypeHeartbeat, ExpansionFrameTypeStatus,
      ExpansionFrameTypeBaudRate, ExpansionFrameTypeControl, ExpansionFrameTypeData}"
    and baud: "header_type frame = ExpansionFrameTypeBaudRate \<longrightarrow> 1 \<le> m"
    and data: "header_type frame = ExpansionFrameTypeData \<and> 2 \<le> content_data_size frame
               \<longrightarrow> 2 \<le> m"
    and le: "m \<le> n"
  shows "expansion_frame_get_remaining_size frame n \<le> expansion_frame_get_remaining_size frame m"
proof (cases "(if header_type frame = ExpansionFrameTypeData then 2 else 1) \<le> m")
  case True
  from remaining_monotone_from_known[OF tag True le] show ?thesis .
next
  case False
  have early: "header_type frame \<in> {1, 2, 4} \<or>
           (header_type frame = 5 \<and> unat (content_data_size frame) \<le> 1)"
  proof (cases "header_type frame = 5")
    case True
    then have "\<not> 2 \<le> m" using False by (simp add: ExpansionFrameType_defs)
    then have "\<not> 2 \<le> content_data_size frame"
      using data True by (auto simp: ExpansionFrameType_defs)
    then have "unat (content_data_size frame) \<le> 1"
      by (simp add: word_le_nat_alt)
    then show ?thesis using True by simp
  next
    case nd: False
    then have "\<not> 1 \<le> m" using False by (simp add: ExpansionFrameType_defs)
    then have "header_type frame \<noteq> 3" using baud by (auto simp: ExpansionFrameType_defs)
    then show ?thesis using tag nd by (auto simp: ExpansionFrameType_defs)
  qed
  have "m = 0 \<or> (header_type frame = 5 \<and> m = 1)"
  proof (cases "header_type frame = 5")
    case True
    then have "\<not> 2 \<le> unat m" using False by (simp add: ExpansionFrameType_defs word_le_nat_alt)
    then have "unat m = 0 \<or> unat m = 1" by linarith
    then have "m = 0 \<or> m = 1" by (auto simp: word_unat_eq_iff)
    then show ?thesis using True by simp
  next
    case nd: False
    then have "\<not> 1 \<le> unat m" using False by (simp add: ExpansionFrameType_defs word_le_nat_alt)
    then have "unat m = 0" by simp
    then show ?thesis by (simp only: unat_eq_0) simp
  qed
  then have "expansion_frame_get_remaining_size frame m = 1"
    by (auto simp: remaining_header remaining_data_at_1)
  then show ?thesis
    using remaining_at_most_1[OF early, of n] by (simp add: word_le_nat_alt)
qed

theorem remaining_size_monotone_once_known_witness:
  "header_type (5 # 7 # replicate 64 0) \<in> {ExpansionFrameTypeHeartbeat, ExpansionFrameTypeStatus,
      ExpansionFrameTypeBaudRate, ExpansionFrameTypeControl, ExpansionFrameTypeData} \<and>
   header_type (5 # 7 # replicate 64 0) = ExpansionFrameTypeData \<and>
   2 \<le> content_data_size (5 # 7 # replicate 64 0) \<and> (2 :: size_t) \<le> 2 \<and> (2 :: size_t) \<le> 6 \<and>
   expansion_frame_get_remaining_size (5 # 7 # replicate 64 0) 6
     \<le> expansion_frame_get_remaining_size (5 # 7 # replicate 64 0) 2 \<and>
   header_type (3 # replicate 65 0) = ExpansionFrameTypeBaudRate \<and>
   (1 :: size_t) \<le> 1 \<and> (1 :: size_t) \<le> 3 \<and>
   expansion_frame_get_remaining_size (3 # replicate 65 0) 3
     \<le> expansion_frame_get_remaining_size (3 # replicate 65 0) 1 \<and>
   header_type (2 # replicate 65 0) = ExpansionFrameTypeStatus \<and> (0 :: size_t) \<le> 1 \<and>
   expansion_frame_get_remaining_size (2 # replicate 65 0) 1
     \<le> expansion_frame_get_remaining_size (2 # replicate 65 0) 0"
  using remaining_size_monotone_once_known [of "5 # 7 # replicate 64 0" 2 6]
    remaining_size_monotone_once_known [of "3 # replicate 65 0" 1 3]
    remaining_size_monotone_once_known [of "2 # replicate 65 0" 0 1]
  by (simp add: header_type_def content_data_size_def ExpansionFrameType_defs word_le_nat_alt)

section \<open>The receive loop\<close>

text \<open>One pass through the loop body, for each of its three ways out.\<close>

lemma decode_loop_done:
  assumes "expansion_frame_get_remaining_size (ds_frame s) (ds_total_size s) = r"
    and "r = 0 \<or> r = SIZE_MAX"
  shows "expansion_frame_decode_loop receive s = Some (s\<lparr>ds_remaining_size := r\<rparr>)"
  using assms by (subst expansion_frame_decode_loop.simps) (simp add: Let_def)

lemma decode_loop_stalled:
  assumes "expansion_frame_get_remaining_size (ds_frame s) (ds_total_size s) = r"
    and "r \<noteq> 0" "r \<noteq> SIZE_MAX"
    and "receive r (ds_context s) = (stored, 0, context')"
  shows "expansion_frame_decode_loop receive s =
     Some (s\<lparr>ds_frame := store_bytes (ds_frame s) (unat (ds_total_size s)) stored,
             ds_context := context',
             ds_remaining_size := r,
             ds_calls := ds_calls s @ [(ds_total_size s, r)]\<rparr>)"
  using assms by (subst expansion_frame_decode_loop.simps) (simp add: Let_def)

lemma decode_loop_step:
  assumes "expansion_frame_get_remaining_size (ds_frame s) (ds_total_size s) = r"
    and "r \<noteq> 0" "r \<noteq> SIZE_MAX"
    and "receive r (ds_context s) = (stored, n, context')"
    and "n \<noteq> 0"
  shows "expansion_frame_decode_loop receive s =
     expansion_frame_decode_loop receive
       (s\<lparr>ds_frame := store_bytes (ds_frame s) (unat (ds_total_size s)) stored,
          ds_context := context',
          ds_remaining_size := r,
          ds_calls := ds_calls s @ [(ds_total_size s, r)],
          ds_total_size := ds_total_size s + n\<rparr>)"
  using assms by (subst expansion_frame_decode_loop.simps) (simp add: Let_def)

lemma SIZE_MAX_neq: "SIZE_MAX \<noteq> 0" "SIZE_MAX \<noteq> 1" "(1::size_t) \<noteq> SIZE_MAX"
  by (simp_all add: SIZE_MAX_def)

lemmas decode_eval =
  expansion_frame_get_remaining_size_def content_size_switch_def header_type_def
  content_data_size_def ExpansionFrameType_defs sizeof_defs SIZE_MAX_def
  buffer_receive_def store_bytes_def Let_def

text \<open>
  The loop can run for ever: on a buffer that holds a Status tag, with the over-reporting
  callback, \<^verbatim>\<open>expansion_frame_decode\<close> does not return.
\<close>

lemma wrapping_run_never_returns:
  "expansion_frame_decode_loop receive s = Some s' \<Longrightarrow> receive = wrapping_receive
   \<Longrightarrow> \<not> wrapping_run s"
proof (induction rule: expansion_frame_decode_loop.raw_induct[rotated 1, consumes 1, case_names step])
  case (step loop receive s s')
  show ?case
  proof
    assume w: "wrapping_run s"
    let ?r = "expansion_frame_get_remaining_size (ds_frame s) (ds_total_size s)"
    have t: "header_type (ds_frame s) = 2"
      using w by (simp add: wrapping_run_def ExpansionFrameType_defs)
    have r: "?r = 1"
    proof (cases "ds_context s")
      case True
      then have "ds_total_size s = 1" using w by (simp add: wrapping_run_def)
      then show ?thesis
        using t by (simp add: expansion_frame_get_remaining_size_def content_size_switch_def
            ExpansionFrameType_defs sizeof_defs)
    next
      case False
      then have "ds_total_size s = 0" using w by (simp add: wrapping_run_def)
      then show ?thesis by (simp add: remaining_header)
    qed
    let ?s = "s\<lparr>ds_frame := store_bytes (ds_frame s) (unat (ds_total_size s)) [],
             ds_context := \<not> ds_context s,
             ds_remaining_size := 1,
             ds_calls := ds_calls s @ [(ds_total_size s, 1)],
             ds_total_size := ds_total_size s + (if ds_context s then SIZE_MAX else 1)\<rparr>"
    have "loop receive ?s = Some s'"
      using step.hyps r step.prems
      by (cases "ds_context s") (simp_all add: Let_def wrapping_receive_def SIZE_MAX_neq)
    from step.IH[OF this step.prems] have "\<not> wrapping_run ?s" .
    moreover have "wrapping_run ?s"
      using w by (simp add: wrapping_run_def store_bytes_def SIZE_MAX_def)
    ultimately show False by simp
  qed
qed

lemma decode_need_not_return:
  "expansion_frame_decode (2 # replicate 65 0) wrapping_receive False = None"
proof (cases "expansion_frame_decode_loop wrapping_receive
         \<lparr>ds_frame = 2 # replicate 65 0, ds_context = False, ds_total_size = 0,
          ds_remaining_size = 0, ds_calls = []\<rparr>")
  case None
  then show ?thesis by (simp add: expansion_frame_decode_def)
next
  case (Some s')
  from wrapping_run_never_returns[OF Some refl] show ?thesis
    by (simp add: wrapping_run_def header_type_def ExpansionFrameType_defs)
qed

text \<open>
  Claim C8. A receive callback that always reports 0 bytes makes
  \<^verbatim>\<open>expansion_frame_decode\<close> return false after exactly one invocation: the one call is
  at offset 0 with the header size as capacity, and the context and the frame are left as
  that single call left them.
\<close>

theorem decode_fails_on_silent_callback:
  assumes "\<forall>data_size context. fst (snd (receive data_size context)) = 0"
  shows "\<exists>r. expansion_frame_decode frame receive context = Some r \<and>
             \<not> dr_ok r \<and> length (dr_calls r) = 1 \<and>
             dr_calls r = [(0, sizeof_ExpansionFrameHeader)] \<and>
             dr_context r = snd (snd (receive sizeof_ExpansionFrameHeader context)) \<and>
             dr_frame r = store_bytes frame 0 (fst (receive sizeof_ExpansionFrameHeader context))"
proof -
  obtain stored n context' where rc: "receive 1 context = (stored, n, context')"
    by (cases "receive 1 context") auto
  have "n = 0" using assms[rule_format, of 1 "context"] rc by simp
  with rc have rc0: "receive 1 context = (stored, 0, context')" by simp
  let ?s = "\<lparr>ds_frame = frame, ds_context = context, ds_total_size = 0,
              ds_remaining_size = 0, ds_calls = []\<rparr>"
  have "expansion_frame_decode_loop receive ?s =
      Some (?s\<lparr>ds_frame := store_bytes (ds_frame ?s) (unat (ds_total_size ?s)) stored,
             ds_context := context',
             ds_remaining_size := 1,
             ds_calls := ds_calls ?s @ [(ds_total_size ?s, 1)]\<rparr>)"
    by (rule decode_loop_stalled) (simp_all add: remaining_header SIZE_MAX_neq rc0)
  then show ?thesis
    by (simp add: expansion_frame_decode_def sizeof_defs rc0)
qed

theorem decode_fails_on_silent_callback_witness:
  "(\<forall>data_size context. fst (snd ((\<lambda>d (c::nat). ([7], 0, Suc c)) data_size context)) = 0) \<and>
   (\<exists>r. expansion_frame_decode (replicate 66 0) (\<lambda>d (c::nat). ([7], 0, Suc c)) 0 = Some r \<and>
             \<not> dr_ok r \<and> length (dr_calls r) = 1 \<and> dr_calls r = [(0, 1)] \<and>
             dr_context r = Suc 0 \<and> dr_frame r = 7 # replicate 65 0)"
  using decode_fails_on_silent_callback [of "\<lambda>d (c::nat). ([7], 0, Suc c)" "replicate 66 0" 0]
  by (simp add: sizeof_defs store_bytes_def)

text \<open>
  Claim C7. With a tag byte outside the five known values and at least the header
  received, \<^verbatim>\<open>expansion_frame_get_remaining_size\<close> returns \<^verbatim>\<open>SIZE_MAX\<close>; and when the
  first byte a callback delivers is such a tag, \<^verbatim>\<open>expansion_frame_decode\<close> returns, with
  false, after that one invocation, whatever count the callback reported.
\<close>

theorem unknown_tag_aborts:
  "(header_type frame \<notin> {ExpansionFrameTypeHeartbeat, ExpansionFrameTypeStatus,
        ExpansionFrameTypeBaudRate, ExpansionFrameTypeControl, ExpansionFrameTypeData} \<and>
      sizeof_ExpansionFrameHeader \<le> received_size \<longrightarrow>
      expansion_frame_get_remaining_size frame received_size = SIZE_MAX) \<and>
   (length buf = sizeof_ExpansionFrame \<and> receive 1 context = (tag # rest, n, context') \<and>
      tag \<notin> {ExpansionFrameTypeHeartbeat, ExpansionFrameTypeStatus,
        ExpansionFrameTypeBaudRate, ExpansionFrameTypeControl, ExpansionFrameTypeData} \<longrightarrow>
      (\<exists>r. expansion_frame_decode buf receive context = Some r \<and> \<not> dr_ok r \<and>
           length (dr_calls r) = 1 \<and> header_type (dr_frame r) = tag))"
proof (intro conjI impI)
  assume "header_type frame \<notin> {ExpansionFrameTypeHeartbeat, ExpansionFrameTypeStatus,
        ExpansionFrameTypeBaudRate, ExpansionFrameTypeControl, ExpansionFrameTypeData} \<and>
      sizeof_ExpansionFrameHeader \<le> received_size"
  then have u: "header_type frame \<notin> {1, 2, 3, 4, 5}" and nz: "received_size \<noteq> 0"
    by (auto simp: ExpansionFrameType_defs sizeof_defs)
  from remaining_unknown[OF nz switch_unknown[OF u]]
  show "expansion_frame_get_remaining_size frame received_size = SIZE_MAX" .
next
  assume a: "length buf = sizeof_ExpansionFrame \<and> receive 1 context = (tag # rest, n, context') \<and>
      tag \<notin> {ExpansionFrameTypeHeartbeat, ExpansionFrameTypeStatus,
        ExpansionFrameTypeBaudRate, ExpansionFrameTypeControl, ExpansionFrameTypeData}"
  let ?s = "\<lparr>ds_frame = buf, ds_context = context, ds_total_size = 0,
              ds_remaining_size = 0, ds_calls = []\<rparr>"
  let ?f = "store_bytes buf 0 (tag # rest)"
  have len: "length buf = 66"
    using a by (simp add: sizeof_ExpansionFrame_def EXPANSION_MAX_DATA_SIZE_def)
  have tag: "header_type ?f = tag"
    using len by (simp add: header_type_def store_bytes_def)
  have u: "header_type ?f \<notin> {1, 2, 3, 4, 5}"
    using a tag by (simp add: ExpansionFrameType_defs)
  have rc: "receive 1 (ds_context ?s) = (tag # rest, n, context')"
    using a by simp
  have r0: "expansion_frame_get_remaining_size (ds_frame ?s) (ds_total_size ?s) = 1"
    by (simp add: remaining_header)
  show "\<exists>r. expansion_frame_decode buf receive context = Some r \<and> \<not> dr_ok r \<and>
           length (dr_calls r) = 1 \<and> header_type (dr_frame r) = tag"
  proof (cases "n = 0")
    case True
    have "expansion_frame_decode_loop receive ?s =
       Some (?s\<lparr>ds_frame := store_bytes (ds_frame ?s) (unat (ds_total_size ?s)) (tag # rest),
          ds_context := context',
          ds_remaining_size := 1,
          ds_calls := ds_calls ?s @ [(ds_total_size ?s, 1)]\<rparr>)"
      using rc True by (intro decode_loop_stalled r0) (simp_all add: SIZE_MAX_neq)
    with tag show ?thesis
      by (simp add: expansion_frame_decode_def SIZE_MAX_neq)
  next
    case False
    have "expansion_frame_get_remaining_size ?f n = SIZE_MAX"
      by (rule remaining_unknown[OF False switch_unknown[OF u]])
    then have "expansion_frame_decode_loop receive
       (?s\<lparr>ds_frame := store_bytes (ds_frame ?s) (unat (ds_total_size ?s)) (tag # rest),
          ds_context := context',
          ds_remaining_size := 1,
          ds_calls := ds_calls ?s @ [(ds_total_size ?s, 1)],
          ds_total_size := ds_total_size ?s + n\<rparr>) =
       Some (?s\<lparr>ds_frame := store_bytes (ds_frame ?s) (unat (ds_total_size ?s)) (tag # rest),
          ds_context := context',
          ds_remaining_size := 1,
          ds_calls := ds_calls ?s @ [(ds_total_size ?s, 1)],
          ds_total_size := ds_total_size ?s + n, ds_remaining_size := SIZE_MAX\<rparr>)"
      by (intro decode_loop_done) simp_all
    moreover have "expansion_frame_decode_loop receive ?s =
      expansion_frame_decode_loop receive
       (?s\<lparr>ds_frame := store_bytes (ds_frame ?s) (unat (ds_total_size ?s)) (tag # rest),
          ds_context := context',
          ds_remaining_size := 1,
          ds_calls := ds_calls ?s @ [(ds_total_size ?s, 1)],
          ds_total_size := ds_total_size ?s + n\<rparr>)"
      using rc False by (intro decode_loop_step r0) (simp_all add: SIZE_MAX_neq)
    ultimately show ?thesis
      using tag by (simp add: expansion_frame_decode_def SIZE_MAX_neq)
  qed
qed

theorem unknown_tag_aborts_witness:
  "header_type (9 # replicate 65 0) \<notin> {ExpansionFrameTypeHeartbeat, ExpansionFrameTypeStatus,
        ExpansionFrameTypeBaudRate, ExpansionFrameTypeControl, ExpansionFrameTypeData} \<and>
   sizeof_ExpansionFrameHeader \<le> 3 \<and>
   expansion_frame_get_remaining_size (9 # replicate 65 0) 3 = SIZE_MAX \<and>
   length (replicate 66 (0 :: u8)) = sizeof_ExpansionFrame \<and>
   buffer_receive 1 [9, 8, 7] = ([9], 1, [8, 7]) \<and>
   (\<exists>r. expansion_frame_decode (replicate 66 0) buffer_receive [9, 8, 7] = Some r \<and>
       \<not> dr_ok r \<and> length (dr_calls r) = 1 \<and> header_type (dr_frame r) = 9)"
  using unknown_tag_aborts [of "9 # replicate 65 0" 3 "replicate 66 0" buffer_receive
      "[9, 8, 7]" 9 "[]" 1 "[8, 7]"]
  by (simp add: header_type_def ExpansionFrameType_defs sizeof_defs sizeof_ExpansionFrame_def
        EXPANSION_MAX_DATA_SIZE_def buffer_receive_def word_le_nat_alt)

text \<open>A remaining size of 0 is computed from a known tag only, and the loop keeps to that.\<close>

lemma remaining_zero_known_tag:
  assumes "expansion_frame_get_remaining_size frame received_size = 0"
  shows "header_type frame \<in> {ExpansionFrameTypeHeartbeat, ExpansionFrameTypeStatus,
      ExpansionFrameTypeBaudRate, ExpansionFrameTypeControl, ExpansionFrameTypeData}"
proof (rule ccontr)
  assume "\<not> ?thesis"
  then have u: "header_type frame \<notin> {1, 2, 3, 4, 5}"
    by (simp add: ExpansionFrameType_defs)
  show False
  proof (cases "received_size = 0")
    case True
    then show False using assms by (simp add: remaining_header)
  next
    case False
    from remaining_unknown[OF False switch_unknown[OF u]] assms show False
      by (simp add: SIZE_MAX_neq)
  qed
qed

lemma decode_loop_known_tag:
  "expansion_frame_decode_loop receive s = Some s' \<Longrightarrow> ds_remaining_size s' = 0
   \<Longrightarrow> header_type (ds_frame s') \<in> {ExpansionFrameTypeHeartbeat, ExpansionFrameTypeStatus,
      ExpansionFrameTypeBaudRate, ExpansionFrameTypeControl, ExpansionFrameTypeData}"
proof (induction rule: expansion_frame_decode_loop.raw_induct[rotated 1, consumes 1, case_names step])
  case (step loop receive s s')
  let ?r = "expansion_frame_get_remaining_size (ds_frame s) (ds_total_size s)"
  show ?case
  proof (cases "?r = 0 \<or> ?r = SIZE_MAX")
    case True
    with step.hyps have s': "s' = s\<lparr>ds_remaining_size := ?r\<rparr>"
      by (simp add: Let_def)
    with step.prems have "?r = 0" by simp
    from remaining_zero_known_tag[OF this] show ?thesis by (simp add: s')
  next
    case False
    obtain stored n context' where rc: "receive ?r (ds_context s) = (stored, n, context')"
      by (cases "receive ?r (ds_context s)") auto
    show ?thesis
    proof (cases "n = 0")
      case True
      with step.hyps False rc have "ds_remaining_size s' = ?r"
        by (auto simp: Let_def)
      with step.prems False show ?thesis by simp
    next
      case n: False
      with step.hyps False rc have "loop receive
          (s\<lparr>ds_frame := store_bytes (ds_frame s) (unat (ds_total_size s)) stored,
             ds_context := context',
             ds_remaining_size := ?r,
             ds_calls := ds_calls s @ [(ds_total_size s, ?r)],
             ds_total_size := ds_total_size s + n\<rparr>) = Some s'"
        by (simp add: Let_def)
      from step.IH[OF this step.prems] show ?thesis .
    qed
  qed
qed

text \<open>
  Claim C10. Whatever the callback does, a decode that returns true leaves one of the five
  known frame types in the tag byte: the loop is left with a remaining size of 0 only,
  and that value is computed from a received size of at least 1 and a known tag.
\<close>

theorem decode_ok_known_tag:
  assumes "expansion_frame_decode frame receive context = Some r" and "dr_ok r"
  shows "header_type (dr_frame r) \<in> {ExpansionFrameTypeHeartbeat, ExpansionFrameTypeStatus,
      ExpansionFrameTypeBaudRate, ExpansionFrameTypeControl, ExpansionFrameTypeData}"
proof -
  from assms(1) obtain s' where
    l: "expansion_frame_decode_loop receive
          \<lparr>ds_frame = frame, ds_context = context, ds_total_size = 0,
           ds_remaining_size = 0, ds_calls = []\<rparr> = Some s'"
    and r: "r = \<lparr>dr_ok = (ds_remaining_size s' = 0), dr_frame = ds_frame s',
                dr_context = ds_context s', dr_calls = ds_calls s'\<rparr>"
    by (auto simp: expansion_frame_decode_def split: option.splits)
  from assms(2) r have "ds_remaining_size s' = 0" by simp
  from decode_loop_known_tag[OF l this] show ?thesis by (simp add: r)
qed

theorem decode_ok_known_tag_witness:
  "expansion_frame_decode (replicate 66 0) buffer_receive [2, 1] =
     Some \<lparr>dr_ok = True, dr_frame = 2 # 1 # replicate 64 0, dr_context = [],
           dr_calls = [(0, 1), (1, 1)]\<rparr> \<and>
   header_type (2 # 1 # replicate 64 0) \<in> {ExpansionFrameTypeHeartbeat, ExpansionFrameTypeStatus,
      ExpansionFrameTypeBaudRate, ExpansionFrameTypeControl, ExpansionFrameTypeData}"
proof -
  have run: "expansion_frame_decode (replicate 66 0) buffer_receive [2, 1] =
     Some \<lparr>dr_ok = True, dr_frame = 2 # 1 # replicate 64 0, dr_context = [],
           dr_calls = [(0, 1), (1, 1)]\<rparr>"
    apply (simp add: expansion_frame_decode_def)
    apply (subst expansion_frame_decode_loop.simps, simp add: decode_eval)
    apply (subst expansion_frame_decode_loop.simps, simp add: decode_eval)
    apply (subst expansion_frame_decode_loop.simps, simp add: decode_eval)
    done
  show ?thesis
    using run decode_ok_known_tag [OF run] by simp
qed

text \<open>
  Claim C2 asks every invocation of the callback to stay inside the frame object: offset
  plus capacity at most \<^verbatim>\<open>sizeof(ExpansionFrame)\<close>, 66. The loop takes the capacity from
  the length byte it has just received and never compares it with
  \<^verbatim>\<open>EXPANSION_MAX_DATA_SIZE\<close>. On the stream 5, 200 and 200 payload bytes, served by a
  source that keeps to its contract, the third invocation is at offset 2 with capacity 200.
\<close>

theorem decode_requests_beyond_frame:
  "map_option dr_calls
     (expansion_frame_decode (replicate 66 0) buffer_receive ([5, 200] @ replicate 200 170)) =
     Some [(0, 1), (1, 1), (2, 200)] \<and>
   \<not> unat (2 :: size_t) + unat (200 :: size_t) \<le> sizeof_ExpansionFrame"
  apply (simp add: expansion_frame_decode_def sizeof_ExpansionFrame_def EXPANSION_MAX_DATA_SIZE_def)
  apply (subst expansion_frame_decode_loop.simps, simp add: decode_eval)
  apply (subst expansion_frame_decode_loop.simps, simp add: decode_eval)
  apply (subst expansion_frame_decode_loop.simps, simp add: decode_eval)
  apply (subst expansion_frame_decode_loop.simps, simp add: decode_eval)
  done

section \<open>The send path\<close>

text \<open>
  Claim C9. With an encoded size of 0, \<^verbatim>\<open>expansion_frame_encode\<close> returns false, makes
  no call and leaves the context alone. Otherwise it calls the send callback exactly once,
  with the first \<open>encoded_size\<close> bytes of the frame and that size, and returns true
  exactly when the count the callback reports equals the encoded size.
\<close>

theorem encode_sends_once:
  "(expansion_frame_get_encoded_size frame = 0 \<longrightarrow>
      expansion_frame_encode frame send context =
        \<lparr>er_ok = False, er_context = context, er_calls = []\<rparr>) \<and>
   (expansion_frame_get_encoded_size frame \<noteq> 0 \<longrightarrow>
      er_calls (expansion_frame_encode frame send context) =
        [(take (unat (expansion_frame_get_encoded_size frame)) frame,
          expansion_frame_get_encoded_size frame)] \<and>
      er_context (expansion_frame_encode frame send context) =
        snd (send (take (unat (expansion_frame_get_encoded_size frame)) frame)
               (expansion_frame_get_encoded_size frame) context) \<and>
      er_ok (expansion_frame_encode frame send context) =
        (fst (send (take (unat (expansion_frame_get_encoded_size frame)) frame)
               (expansion_frame_get_encoded_size frame) context)
         = expansion_frame_get_encoded_size frame))"
  by (simp add: expansion_frame_encode_def Let_def split: prod.splits)

theorem encode_sends_once_witness:
  "expansion_frame_get_encoded_size (9 # replicate 65 0) = 0 \<and>
   expansion_frame_encode (9 # replicate 65 0) buffer_send [] =
     \<lparr>er_ok = False, er_context = [], er_calls = []\<rparr> \<and>
   expansion_frame_get_encoded_size (2 # 1 # replicate 64 0) \<noteq> 0 \<and>
   er_calls (expansion_frame_encode (2 # 1 # replicate 64 0) buffer_send []) = [([2, 1], 2)] \<and>
   er_ok (expansion_frame_encode (2 # 1 # replicate 64 0) buffer_send []) \<and>
   \<not> er_ok (expansion_frame_encode (2 # 1 # replicate 64 0) (\<lambda>data data_size sink. (1, sink)) ([] :: u8 list))"
  using encode_sends_once [of "9 # replicate 65 0" buffer_send "[]"]
    encode_sends_once [of "2 # 1 # replicate 64 0" buffer_send "[]"]
    encode_sends_once [of "2 # 1 # replicate 64 0" "\<lambda>data data_size sink. (1, sink)" "[] :: u8 list"]
  by (simp add: expansion_frame_get_encoded_size_def header_type_def content_data_size_def
        ExpansionFrameType_defs sizeof_defs buffer_send_def)

section \<open>Sending a frame and receiving it again\<close>

lemma baud_roundtrip: "baud_of_bytes (baud_to_bytes w) = w"
proof (rule bit_word_eqI)
  fix n :: nat
  assume n: "n < LENGTH(32)"
  have a: "8 + (n - 8) = n" if "8 \<le> n" using that by simp
  have b: "16 + (n - 16) = n" if "16 \<le> n" using that by simp
  have c: "24 + (n - 24) = n" if "24 \<le> n" using that by simp
  consider "n < 8" | "8 \<le> n" "n < 16" | "16 \<le> n" "n < 24" | "24 \<le> n" "n < 32"
    using n by fastforce
  then show "bit (baud_of_bytes (baud_to_bytes w)) n = bit w n"
  proof cases
    case 1
    then show ?thesis
      by (simp add: baud_of_bytes_def baud_to_bytes_def bit_simps)
  next
    case 2
    then show ?thesis
      by (auto simp: baud_of_bytes_def baud_to_bytes_def bit_simps a)
  next
    case 3
    then show ?thesis
      by (auto simp: baud_of_bytes_def baud_to_bytes_def bit_simps b)
  next
    case 4
    then show ?thesis
      by (auto simp: baud_of_bytes_def baud_to_bytes_def bit_simps c)
  qed
qed

lemma store_bytes_0:
  "length bytes \<le> length frame \<Longrightarrow> store_bytes frame 0 bytes = bytes @ drop (length bytes) frame"
  by (simp add: store_bytes_def)

lemma store_bytes_next:
  assumes "t + d \<le> length W" "length W \<le> length frame"
  shows "store_bytes (store_bytes frame 0 (take t W)) t (take d (drop t W)) =
         store_bytes frame 0 (take (t + d) W)"
proof -
  have "take t W @ take d (drop t W) = take (t + d) W"
    by (simp add: take_add)
  then show ?thesis
    using assms by (simp add: store_bytes_def min_def)
qed

lemma length_frame_bytes:
  "well_formed v \<Longrightarrow> length (frame_bytes v) \<le> 66 \<and> 1 \<le> length (frame_bytes v)"
  by (cases v) (simp_all add: frame_bytes_def baud_to_bytes_def well_formed_def
      EXPANSION_MAX_DATA_SIZE_def)

lemma unat_of_nat_u8: "n \<le> 64 \<Longrightarrow> unat (of_nat n :: u8) = n"
  by (simp add: unat_of_nat)

lemma unat_of_nat_size_t: "n \<le> 66 \<Longrightarrow> unat (of_nat n :: size_t) = n"
  by (simp add: unat_of_nat)

lemma frame_bytes_encoded_size:
  assumes "well_formed v"
  shows "unat (expansion_frame_get_encoded_size (frame_bytes v)) = length (frame_bytes v)"
proof (cases v)
  case (Data bytes)
  then have "length bytes \<le> 64"
    using assms by (simp add: well_formed_def EXPANSION_MAX_DATA_SIZE_def)
  then show ?thesis
    using Data
    by (simp add: frame_bytes_def expansion_frame_get_encoded_size_def header_type_def
        content_data_size_def ExpansionFrameType_defs sizeof_defs unat_add_ucast unat_of_nat_u8)
qed (simp_all add: frame_bytes_def expansion_frame_get_encoded_size_def header_type_def
        ExpansionFrameType_defs sizeof_defs baud_to_bytes_def)

lemma frame_bytes_tag:
  "header_type (frame_bytes v) \<in> {1, 2, 3, 4, 5}"
  by (cases v) (simp_all add: frame_bytes_def header_type_def ExpansionFrameType_defs)

lemma frame_value_bytes:
  assumes "well_formed v" "length (frame_bytes v) + length rest = 66"
  shows "frame_value (frame_bytes v @ rest) = Some v"
proof (cases v)
  case (BaudRate baud)
  then show ?thesis
    using baud_roundtrip[of baud]
    by (simp add: frame_bytes_def frame_value_def header_type_def ExpansionFrameType_defs
        baud_to_bytes_def)
next
  case (Data bytes)
  then have "length bytes \<le> 64"
    using assms by (simp add: well_formed_def EXPANSION_MAX_DATA_SIZE_def)
  then show ?thesis
    using Data
    by (simp add: frame_bytes_def frame_value_def header_type_def content_data_size_def
        ExpansionFrameType_defs unat_of_nat_u8)
qed (simp_all add: frame_bytes_def frame_value_def header_type_def ExpansionFrameType_defs)

lemma remaining_on_prefix:
  assumes tag: "header_type W \<in> {1, 2, 3, 4, 5}"
    and size: "unat (expansion_frame_get_encoded_size W) = length W"
    and fits: "length W \<le> 66" and dst: "length dst = 66"
    and t: "t \<le> length W"
  shows "unat (expansion_frame_get_remaining_size (store_bytes dst 0 (take t W)) (of_nat t)) =
     (if t = 0 \<or> (header_type W = 5 \<and> t = 1) then 1 else length W - t)"
proof (cases "t = 0")
  case True
  then show ?thesis by (simp add: remaining_header)
next
  case False
  let ?f = "store_bytes dst 0 (take t W)"
  have t66: "t \<le> 66" using t fits by simp
  have ut: "unat (of_nat t :: size_t) = t" using t66 by (rule unat_of_nat_size_t)
  have nz: "(of_nat t :: size_t) \<noteq> 0" using ut False by (metis unat_0)
  have f: "?f = take t W @ drop t dst"
    using t dst fits by (simp add: store_bytes_0 min_def)
  have h: "header_type ?f = header_type W"
    using False t by (simp add: f header_type_def nth_append)
  have rk: "unat (expansion_frame_get_remaining_size ?f (of_nat t)) = unat cs - (t - 1)"
    if "content_size_switch ?f (of_nat t - 1) = Some cs" for cs
    using remaining_known[OF nz that] by (simp add: ut)
  consider "header_type W = 1" | "header_type W = 2" | "header_type W = 3"
    | "header_type W = 4" | "header_type W = 5"
    using tag by auto
  then show ?thesis
  proof cases
    case 1
    have "length W = 1"
      using size 1 by (simp add: expansion_frame_get_encoded_size_def ExpansionFrameType_defs sizeof_defs)
    then show ?thesis
      using rk[OF switch_fixed(1)] 1 h False by simp
  next
    case 2
    have "length W = 2"
      using size 2 by (simp add: expansion_frame_get_encoded_size_def ExpansionFrameType_defs sizeof_defs)
    then show ?thesis
      using rk[OF switch_fixed(2)] 2 h False by simp
  next
    case 3
    have "length W = 5"
      using size 3 by (simp add: expansion_frame_get_encoded_size_def ExpansionFrameType_defs sizeof_defs)
    then show ?thesis
      using rk[OF switch_fixed(3)] 3 h False by simp
  next
    case 4
    have "length W = 2"
      using size 4 by (simp add: expansion_frame_get_encoded_size_def ExpansionFrameType_defs sizeof_defs)
    then show ?thesis
      using rk[OF switch_fixed(4)] 4 h False by simp
  next
    case 5
    have len: "length W = 2 + unat (content_data_size W)"
      using size 5
      by (simp add: expansion_frame_get_encoded_size_def ExpansionFrameType_defs sizeof_defs
          unat_add_ucast)
    have h5: "header_type ?f = 5" using h 5 by simp
    show ?thesis
    proof (cases "t = 1")
      case True
      have "content_size_switch ?f (of_nat t - 1) = Some 1"
        using switch_data[OF h5, of "of_nat t - 1"] True by simp
      from rk[OF this] show ?thesis using True 5 by simp
    next
      case t1: False
      then have t2: "2 \<le> t" using False by simp
      have "unat (of_nat t - 1 :: size_t) = t - 1"
        using unat_minus_1[OF nz] ut by simp
      then have "(of_nat t - 1 :: size_t) \<noteq> 0"
        using t2 by (metis unat_0 diff_is_0_eq not_numeral_le_zero One_nat_def
            Suc_1 not_less_eq_eq)
      moreover have "content_data_size ?f = content_data_size W"
        using t2 t by (simp add: f content_data_size_def nth_append)
      ultimately have "content_size_switch ?f (of_nat t - 1) =
          Some (1 + ucast (content_data_size W))"
        using switch_data[OF h5, of "of_nat t - 1"] by simp
      from rk[OF this] show ?thesis
        using t1 False len by (simp add: unat_add1_ucast)
    qed
  qed
qed

lemma unat_SIZE_MAX: "unat SIZE_MAX = 4294967295"
  by (simp add: SIZE_MAX_def unsigned_minus_1_eq_mask mask_eq_exp_minus_1)

lemma buffer_receive_available:
  assumes "unat r = d" "t + d \<le> length W"
  shows "buffer_receive r (drop t W) = (take d (drop t W), of_nat d, drop (t + d) W)"
proof -
  have "length (take d (drop t W)) = d"
    using assms(2) by simp
  then show ?thesis
    unfolding buffer_receive_def assms(1) by (simp only: drop_drop add.commute)
qed

lemma decode_loop_buffer:
  assumes tag: "header_type W \<in> {1, 2, 3, 4, 5}"
    and size: "unat (expansion_frame_get_encoded_size W) = length W"
    and fits: "length W \<le> 66" and dst: "length dst = 66"
  shows "t \<le> length W \<Longrightarrow>
     \<exists>calls'. expansion_frame_decode_loop buffer_receive
        \<lparr>ds_frame = store_bytes dst 0 (take t W), ds_context = drop t W,
         ds_total_size = of_nat t, ds_remaining_size = x, ds_calls = calls\<rparr> =
       Some \<lparr>ds_frame = store_bytes dst 0 W, ds_context = [],
         ds_total_size = of_nat (length W), ds_remaining_size = 0, ds_calls = calls'\<rparr>"
proof (induction "length W - t" arbitrary: t x calls rule: less_induct)
  case less
  let ?s = "\<lparr>ds_frame = store_bytes dst 0 (take t W), ds_context = drop t W,
         ds_total_size = of_nat t, ds_remaining_size = x, ds_calls = calls\<rparr>"
  define r where "r = expansion_frame_get_remaining_size (store_bytes dst 0 (take t W)) (of_nat t)"
  have rs: "expansion_frame_get_remaining_size (ds_frame ?s) (ds_total_size ?s) = r"
    by (simp add: r_def)
  have r: "unat r = (if t = 0 \<or> (header_type W = 5 \<and> t = 1) then 1 else length W - t)"
    unfolding r_def by (rule remaining_on_prefix[OF tag size fits dst less.prems])
  have W1: "1 \<le> length W"
    using size tag
    by (auto simp: expansion_frame_get_encoded_size_def ExpansionFrameType_defs sizeof_defs
        unat_add_ucast)
  have W2: "2 \<le> length W" if "header_type W = 5"
    using size that
    by (simp add: expansion_frame_get_encoded_size_def ExpansionFrameType_defs sizeof_defs
        unat_add_ucast)
  show ?case
  proof (cases "t = length W")
    case True
    have "unat r = 0" using r True W1 W2 by auto
    then have "r = 0" by (simp only: unat_eq_0)
    then have "expansion_frame_decode_loop buffer_receive ?s = Some (?s\<lparr>ds_remaining_size := r\<rparr>)"
      by (intro decode_loop_done rs) simp
    then show ?thesis
      using True \<open>r = 0\<close> by simp
  next
    case False
    define d where "d = unat r"
    have d: "0 < d" "t + d \<le> length W"
      using r False less.prems W1 W2 unfolding d_def by (auto split: if_splits)
    have rd: "r = of_nat d" by (simp add: d_def)
    have r0: "r \<noteq> 0" using d(1) unfolding d_def by (metis unat_0 less_numeral_extra(3))
    have rm: "r \<noteq> SIZE_MAX"
    proof
      assume "r = SIZE_MAX"
      then have "d = unat SIZE_MAX" by (simp add: d_def)
      then show False using d(2) fits by (simp add: unat_SIZE_MAX)
    qed
    have ut: "unat (of_nat t :: size_t) = t"
      using less.prems fits by (intro unat_of_nat_size_t) simp
    have rc: "buffer_receive r (ds_context ?s) =
        (take d (drop t W), of_nat d, drop (t + d) W)"
      using buffer_receive_available[OF d_def[symmetric] d(2)] by simp
    have nd: "(of_nat d :: size_t) \<noteq> 0" using r0 rd by simp
    have step: "expansion_frame_decode_loop buffer_receive ?s =
      expansion_frame_decode_loop buffer_receive
       (?s\<lparr>ds_frame := store_bytes (ds_frame ?s) (unat (ds_total_size ?s)) (take d (drop t W)),
          ds_context := drop (t + d) W,
          ds_remaining_size := r,
          ds_calls := ds_calls ?s @ [(ds_total_size ?s, r)],
          ds_total_size := ds_total_size ?s + of_nat d\<rparr>)"
      by (rule decode_loop_step[where s = "?s" and receive = buffer_receive and r = r, OF rs r0 rm rc nd])
    have fr: "store_bytes (store_bytes dst 0 (take t W)) t (take d (drop t W)) =
         store_bytes dst 0 (take (t + d) W)"
      using d(2) fits dst by (intro store_bytes_next) simp_all
    have "\<exists>calls'. expansion_frame_decode_loop buffer_receive
        \<lparr>ds_frame = store_bytes dst 0 (take (t + d) W), ds_context = drop (t + d) W,
         ds_total_size = of_nat (t + d), ds_remaining_size = r,
         ds_calls = calls @ [(of_nat t, r)]\<rparr> =
       Some \<lparr>ds_frame = store_bytes dst 0 W, ds_context = [],
         ds_total_size = of_nat (length W), ds_remaining_size = 0, ds_calls = calls'\<rparr>"
      using d by (intro less.hyps) simp_all
    then show ?thesis
      unfolding step by (simp add: ut fr)
  qed
qed

lemma encoded_size_append:
  assumes "header_type W \<in> {1, 2, 3, 4, 5}"
    and "unat (expansion_frame_get_encoded_size W) = length W"
  shows "expansion_frame_get_encoded_size (W @ rest) = expansion_frame_get_encoded_size W"
proof -
  have W1: "1 \<le> length W"
    using assms
    by (auto simp: expansion_frame_get_encoded_size_def ExpansionFrameType_defs sizeof_defs
        unat_add_ucast)
  then have h: "header_type (W @ rest) = header_type W"
    by (cases W) (simp_all add: header_type_def)
  show ?thesis
  proof (cases "header_type W = 5")
    case True
    then have "2 \<le> length W"
      using assms(2)
      by (simp add: expansion_frame_get_encoded_size_def ExpansionFrameType_defs sizeof_defs
          unat_add_ucast)
    then have "content_data_size (W @ rest) = content_data_size W"
      by (simp add: content_data_size_def nth_append)
    then show ?thesis
      by (simp add: expansion_frame_get_encoded_size_def h)
  next
    case False
    then show ?thesis
      by (simp add: expansion_frame_get_encoded_size_def h ExpansionFrameType_defs)
  qed
qed

text \<open>
  Claim C1. Take a well-formed frame value of any of the five variants (a Data payload of
  at most 64 bytes), stored in a frame object whose other bytes are arbitrary. Encoding it
  into an empty in-memory buffer succeeds, and decoding that buffer into any other frame
  object returns true and leaves there a frame that reads back as the same value.
\<close>

theorem encode_decode_roundtrip:
  assumes wf: "well_formed v"
    and src: "length src = sizeof_ExpansionFrame"
    and dst: "length dst = sizeof_ExpansionFrame"
  shows "frame_value (frame_store v src) = Some v \<and>
     er_ok (expansion_frame_encode (frame_store v src) buffer_send []) \<and>
     (\<exists>r. expansion_frame_decode dst buffer_receive
            (er_context (expansion_frame_encode (frame_store v src) buffer_send [])) = Some r \<and>
          dr_ok r \<and> frame_value (dr_frame r) = Some v)"
proof -
  let ?W = "frame_bytes v"
  have src66: "length src = 66" and dst66: "length dst = 66"
    using src dst by (simp_all add: sizeof_ExpansionFrame_def EXPANSION_MAX_DATA_SIZE_def)
  have len: "length ?W \<le> 66" "1 \<le> length ?W"
    using length_frame_bytes[OF wf] by simp_all
  have tag: "header_type ?W \<in> {1, 2, 3, 4, 5}" by (rule frame_bytes_tag)
  have size: "unat (expansion_frame_get_encoded_size ?W) = length ?W"
    by (rule frame_bytes_encoded_size[OF wf])
  have F: "frame_store v src = ?W @ drop (length ?W) src"
    using len src66 by (simp add: frame_store_def store_bytes_0)
  have D: "store_bytes dst 0 ?W = ?W @ drop (length ?W) dst"
    using len dst66 by (simp add: store_bytes_0)
  have v1: "frame_value (frame_store v src) = Some v"
    unfolding F using len src66 by (intro frame_value_bytes[OF wf]) simp
  have v2: "frame_value (store_bytes dst 0 ?W) = Some v"
    unfolding D using len dst66 by (intro frame_value_bytes[OF wf]) simp
  have es: "expansion_frame_get_encoded_size (frame_store v src) =
      expansion_frame_get_encoded_size ?W"
    unfolding F by (rule encoded_size_append[OF tag size])
  have nz: "expansion_frame_get_encoded_size ?W \<noteq> 0"
    using size len(2) by (metis unat_0 not_one_le_zero)
  have tk: "take (unat (expansion_frame_get_encoded_size ?W)) (frame_store v src) = ?W"
    unfolding size F by simp
  have enc: "expansion_frame_encode (frame_store v src) buffer_send [] =
      \<lparr>er_ok = True, er_context = ?W,
       er_calls = [(?W, expansion_frame_get_encoded_size ?W)]\<rparr>"
    using nz by (simp add: expansion_frame_encode_def es tk buffer_send_def)
  obtain calls' where "expansion_frame_decode_loop buffer_receive
        \<lparr>ds_frame = store_bytes dst 0 (take 0 ?W), ds_context = drop 0 ?W,
         ds_total_size = of_nat 0, ds_remaining_size = 0, ds_calls = []\<rparr> =
       Some \<lparr>ds_frame = store_bytes dst 0 ?W, ds_context = [],
         ds_total_size = of_nat (length ?W), ds_remaining_size = 0, ds_calls = calls'\<rparr>"
    using decode_loop_buffer[OF tag size len(1) dst66, of 0 0 "[]"] by auto
  then have dec: "expansion_frame_decode dst buffer_receive ?W =
      Some \<lparr>dr_ok = True, dr_frame = store_bytes dst 0 ?W, dr_context = [],
            dr_calls = calls'\<rparr>"
    by (simp add: expansion_frame_decode_def store_bytes_def)
  show ?thesis
    using v1 v2 by (simp add: enc dec)
qed

theorem encode_decode_roundtrip_witness:
  "well_formed (Data [222, 173]) \<and>
   length (replicate 66 (0 :: u8)) = sizeof_ExpansionFrame \<and>
   length (replicate 66 (255 :: u8)) = sizeof_ExpansionFrame \<and>
   frame_value (frame_store (Data [222, 173]) (replicate 66 0)) = Some (Data [222, 173]) \<and>
   er_ok (expansion_frame_encode (frame_store (Data [222, 173]) (replicate 66 0)) buffer_send []) \<and>
   (\<exists>r. expansion_frame_decode (replicate 66 255) buffer_receive
          (er_context (expansion_frame_encode (frame_store (Data [222, 173]) (replicate 66 0))
             buffer_send [])) = Some r \<and>
        dr_ok r \<and> frame_value (dr_frame r) = Some (Data [222, 173]))"
proof -
  have h1: "well_formed (Data [222, 173])"
    by (simp add: well_formed_def EXPANSION_MAX_DATA_SIZE_def)
  have h2: "length (replicate 66 (0 :: u8)) = sizeof_ExpansionFrame"
    by (simp add: sizeof_ExpansionFrame_def EXPANSION_MAX_DATA_SIZE_def)
  have h3: "length (replicate 66 (255 :: u8)) = sizeof_ExpansionFrame"
    by (simp add: sizeof_ExpansionFrame_def EXPANSION_MAX_DATA_SIZE_def)
  show ?thesis
    using h1 h2 h3 encode_decode_roundtrip [OF h1 h2 h3] by simp
qed

end
